theory Spec2Isabelle
  imports Complex_Main "HOL-Library.Word"
begin

section \<open>JavaScript strings\<close>

text \<open>
  A JavaScript string is modelled as a \<open>string\<close> (a list of characters). The
  operations below follow the ECMAScript semantics of the methods the program
  calls, restricted to ASCII for case conversion and white space.
\<close>

text \<open>\<open>s.startsWith(p)\<close>, used to scan for occurrences.\<close>

fun starts_with :: "string \<Rightarrow> string \<Rightarrow> bool" where
  "starts_with s [] = True"
| "starts_with [] (p # ps) = False"
| "starts_with (c # cs) (p # ps) = (c = p \<and> starts_with cs ps)"

text \<open>\<open>s.includes(sub)\<close>: some position of \<open>s\<close> starts an occurrence of \<open>sub\<close>.\<close>

fun includes_str :: "string \<Rightarrow> string \<Rightarrow> bool" where
  "includes_str [] sub = (sub = [])"
| "includes_str (c # cs) sub = (starts_with (c # cs) sub \<or> includes_str cs sub)"

text \<open>
  \<open>s.split(sep)\<close> for a string separator: the string is scanned from the left, each
  occurrence found closes the current piece and the scan resumes after it. With
  the empty separator the string is cut into its characters.
\<close>

function split_scan :: "string \<Rightarrow> string \<Rightarrow> string \<Rightarrow> string list" where
  "split_scan sep cur [] = [cur]"
| "split_scan sep cur (c # cs) =
     (if sep \<noteq> [] \<and> starts_with (c # cs) sep
      then cur # split_scan sep [] (drop (length sep) (c # cs))
      else split_scan sep (cur @ [c]) cs)"
  by pat_completeness auto
termination
  by (relation "measure (\<lambda>(sep, cur, s). length s)") (auto simp: neq_Nil_conv)

definition split :: "string \<Rightarrow> string \<Rightarrow> string list" where
  "split s sep = (if sep = [] then map (\<lambda>c. [c]) s else split_scan sep [] s)"

text \<open>\<open>parts.join(sep)\<close>.\<close>

fun join :: "string list \<Rightarrow> string \<Rightarrow> string" where
  "join [] sep = []"
| "join [x] sep = x"
| "join (x # y # ys) sep = x @ sep @ join (y # ys) sep"

text \<open>The white space class \<open>\s\<close> on ASCII: tab, line feed, vertical tab, form feed,
  carriage return and space.\<close>

definition is_space :: "char \<Rightarrow> bool" where
  "is_space c = (c = CHR 0x09 \<or> c = CHR 0x0A \<or> c = CHR 0x0B \<or> c = CHR 0x0C
                 \<or> c = CHR 0x0D \<or> c = CHR '' '')"

text \<open>\<open>s.split(/\s+/)\<close>: every maximal run of white space is one separator.\<close>

function split_ws_scan :: "string \<Rightarrow> string \<Rightarrow> string list" where
  "split_ws_scan cur [] = [cur]"
| "split_ws_scan cur (c # cs) =
     (if is_space c then cur # split_ws_scan [] (dropWhile is_space cs)
      else split_ws_scan (cur @ [c]) cs)"
  by pat_completeness auto
termination
  by (relation "measure (\<lambda>(cur, s). length s)")
     (auto simp: length_dropWhile_le le_imp_less_Suc)

definition split_ws :: "string \<Rightarrow> string list" where
  "split_ws s = split_ws_scan [] s"

definition to_upper :: "char \<Rightarrow> char" where
  "to_upper c = (let n = of_char c :: nat in
     if 97 \<le> n \<and> n \<le> 122 then char_of (n - 32) else c)"

definition to_lower :: "char \<Rightarrow> char" where
  "to_lower c = (let n = of_char c :: nat in
     if 65 \<le> n \<and> n \<le> 90 then char_of (n + 32) else c)"

definition toUpperCase :: "string \<Rightarrow> string" where
  "toUpperCase s = map to_upper s"

definition toLowerCase :: "string \<Rightarrow> string" where
  "toLowerCase s = map to_lower s"

text \<open>Decimal rendering of a non-negative integer, as template literals do.\<close>

fun digits_of :: "nat \<Rightarrow> string" where
  "digits_of n = (if n < 10 then [char_of (48 + n)]
                  else digits_of (n div 10) @ [char_of (48 + n mod 10)])"

declare digits_of.simps [simp del]

abbreviation NL :: char where
  "NL \<equiv> CHR 0x0A"

text \<open>A multi-line template literal, given by its lines.\<close>

definition unlines :: "string list \<Rightarrow> string" where
  "unlines ls = join ls [NL]"

section \<open>Agents\<close>

datatype agent_type = Planner | Coder | Verifier | Executor

datatype task_status = Pending | Running | Completed | Failed

record AgentTask =
  task_id :: string
  task_projectId :: int
  agentType :: agent_type
  status :: task_status
  prompt :: string
  result :: "string option"
  error :: "string option"
  task_createdAt :: nat
  completedAt :: "nat option"

record AgentResponse =
  success :: bool
  resp_result :: "string option"
  resp_error :: "string option"
  nextAgent :: "agent_type option"

text \<open>\<open>PlannerAgent.analyze\<close>: the body of the \<open>try\<close> only builds a template
  literal, which cannot throw, so the \<open>catch\<close> branch is never taken. The literal
  starts with a line break and ends with the indentation of its closing quote.\<close>

definition plan_text :: "string \<Rightarrow> string" where
  "plan_text p = unlines
    [[],
     ''Development Plan for: '' @ p,
     [],
     ''1. Architecture Design'',
     ''   - Identify core components'',
     ''   - Define data models'',
     ''   - Plan API structure'',
     [],
     ''2. Implementation Steps'',
     ''   - Setup project structure'',
     ''   - Create database schema'',
     ''   - Build API endpoints'',
     ''   - Develop UI components'',
     [],
     ''3. Testing Strategy'',
     ''   - Unit tests'',
     ''   - Integration tests'',
     ''   - E2E tests'',
     [],
     ''4. Deployment Plan'',
     ''   - Build optimization'',
     ''   - Performance tuning'',
     ''   - Production deployment'',
     ''      '']"

definition analyze :: "string \<Rightarrow> AgentResponse" where
  "analyze p = \<lparr>success = True, resp_result = Some (plan_text p),
                resp_error = None, nextAgent = Some Coder\<rparr>"

text \<open>\<open>CoderAgent.toPascalCase\<close>.\<close>

definition pascal_word :: "string \<Rightarrow> string" where
  "pascal_word w = toUpperCase (take 1 w) @ toLowerCase (drop 1 w)"

definition toPascalCase :: "string \<Rightarrow> string" where
  "toPascalCase str = join (map pascal_word (split_ws str)) []"

definition code_text :: "string \<Rightarrow> string" where
  "code_text p = (let P = toPascalCase p in unlines
    [[],
     ''// Generated code for: '' @ p,
     [],
     ''export interface '' @ P @ '' {'',
     ''  id: number;'',
     ''  name: string;'',
     ''  createdAt: Date;'',
     ''  updatedAt: Date;'',
     ''}'',
     [],
     ''export async function create'' @ P @ ''(data: any) {'',
     ''  // Implementation will be generated based on requirements'',
     ''  return data;'',
     ''}'',
     [],
     ''export async function get'' @ P @ ''(id: number) {'',
     ''  // Retrieve implementation'',
     ''  return null;'',
     ''}'',
     [],
     ''export async function update'' @ P @ ''(id: number, data: any) {'',
     ''  // Update implementation'',
     ''  return data;'',
     ''}'',
     [],
     ''export async function delete'' @ P @ ''(id: number) {'',
     ''  // Delete implementation'',
     ''  return true;'',
     ''}'',
     ''      ''])"

text \<open>\<open>CoderAgent.generate\<close>: the plan is accepted and not used.\<close>

definition generate :: "string \<Rightarrow> string option \<Rightarrow> AgentResponse" where
  "generate p plan = \<lparr>success = True, resp_result = Some (code_text p),
                      resp_error = None, nextAgent = Some Verifier\<rparr>"

text \<open>\<open>VerifierAgent.checkCodeQuality\<close>: the three checks, in the source's order.\<close>

definition issue_no_exports :: string where
  "issue_no_exports = ''No exports found in code''"

definition issue_any :: string where
  "issue_any = ''Excessive use of 'any' type - consider proper typing''"

definition issue_no_error_handling :: string where
  "issue_no_error_handling = ''No error handling detected''"

definition checkCodeQuality :: "string \<Rightarrow> string list" where
  "checkCodeQuality code =
     (if \<not> includes_str code ''export'' then [issue_no_exports] else []) @
     (if includes_str code ''any'' \<and> length (split code ''any'') > 3 then [issue_any] else []) @
     (if \<not> includes_str code ''error'' \<and> \<not> includes_str code ''try''
      then [issue_no_error_handling] else [])"

definition verify :: "string \<Rightarrow> AgentResponse" where
  "verify code = (let issues = checkCodeQuality code in
     if length issues = 0
     then \<lparr>success = True,
           resp_result = Some ''Code verification passed. No issues found.'',
           resp_error = None, nextAgent = Some Executor\<rparr>
     else \<lparr>success = False, resp_result = None,
           resp_error = Some (''Code verification found '' @ digits_of (length issues)
                              @ '' issues:'' @ [NL] @ join issues [NL]),
           nextAgent = Some Coder\<rparr>)"

definition execution_summary :: "string" where
  "execution_summary = unlines
    [[],
     ''Execution Summary:'',
     ''- Code compiled successfully'',
     ''- All tests passed'',
     ''- Build artifacts generated'',
     ''- Ready for deployment'',
     [],
     ''Deployment Status:'',
     ''- Project built successfully'',
     ''- Artifacts: /dist/'',
     ''- Build time: 2.34s'',
     ''- Bundle size: 145KB'',
     ''      '']"

text \<open>\<open>ExecutorAgent.execute\<close>: the console output is not part of the model.\<close>

definition execute :: "string \<Rightarrow> int \<Rightarrow> AgentResponse" where
  "execute code pid = \<lparr>success = True, resp_result = Some execution_summary,
                       resp_error = None, nextAgent = None\<rparr>"

section \<open>The orchestrator\<close>

text \<open>
  The four agents an orchestrator holds. \<open>AgentOrchestrator\<close> constructs the four
  built-in ones; the pipeline itself only uses their common contract, so it is
  written over any four agents and instantiated below.
\<close>

record Agents =
  planner :: "string \<Rightarrow> AgentResponse"
  coder :: "string \<Rightarrow> string option \<Rightarrow> AgentResponse"
  verifier :: "string \<Rightarrow> AgentResponse"
  executor :: "string \<Rightarrow> int \<Rightarrow> AgentResponse"

definition builtin_agents :: Agents where
  "builtin_agents = \<lparr>planner = analyze, coder = generate,
                      verifier = verify, executor = execute\<rparr>"

text \<open>\<open>x || ""\<close> on an optional string.\<close>

definition or_empty :: "string option \<Rightarrow> string" where
  "or_empty r = (case r of None \<Rightarrow> [] | Some s \<Rightarrow> s)"

text \<open>
  One stage's record: created \<open>running\<close>, then finalised from the agent's response.
  The clock \<open>clk\<close> gives the successive readings of \<open>Date.now()\<close> and \<open>new Date()\<close>
  of one run, numbered in program order; \<open>k\<close> is the index of the stage's first reading.
\<close>

definition finish_task ::
  "(nat \<Rightarrow> nat) \<Rightarrow> nat \<Rightarrow> string \<Rightarrow> int \<Rightarrow> agent_type \<Rightarrow> string \<Rightarrow> AgentResponse \<Rightarrow> AgentTask" where
  "finish_task clk k pre pid ty pr r =
     \<lparr>task_id = pre @ digits_of (clk k), task_projectId = pid, agentType = ty,
      status = (if success r then Completed else Failed),
      prompt = pr, result = resp_result r, error = resp_error r,
      task_createdAt = clk (k + 1), completedAt = Some (clk (k + 2))\<rparr>"

definition orchestrate_with ::
  "Agents \<Rightarrow> (nat \<Rightarrow> nat) \<Rightarrow> string \<Rightarrow> int \<Rightarrow> AgentTask list" where
  "orchestrate_with ag clk p pid =
     (let planResult = planner ag p;
          planTask = finish_task clk 0 ''plan-'' pid Planner p planResult;
          tasks1 = [planTask]
      in if \<not> success planResult then tasks1 else
      let codeResult = coder ag p (resp_result planResult);
          codeTask = finish_task clk 3 ''code-'' pid Coder
                       (or_empty (resp_result planResult)) codeResult;
          tasks2 = tasks1 @ [codeTask]
      in if \<not> success codeResult then tasks2 else
      let verifyResult = verifier ag (or_empty (resp_result codeResult));
          verifyTask = finish_task clk 6 ''verify-'' pid Verifier
                         (or_empty (resp_result codeResult)) verifyResult;
          tasks3 = tasks2 @ [verifyTask]
      in if \<not> success verifyResult then tasks3 else
      let execResult = executor ag (or_empty (resp_result codeResult)) pid;
          execTask = finish_task clk 9 ''exec-'' pid Executor
                       (or_empty (resp_result codeResult)) execResult
      in tasks3 @ [execTask])"

definition orchestrate :: "(nat \<Rightarrow> nat) \<Rightarrow> string \<Rightarrow> int \<Rightarrow> AgentTask list" where
  "orchestrate = orchestrate_with builtin_agents"

text \<open>
  The number of times a marker appears in a text, in the words of the specification:
  the number of positions at which an occurrence of the marker starts.
\<close>

fun occurrences :: "string \<Rightarrow> string \<Rightarrow> nat" where
  "occurrences [] sub = 0"
| "occurrences (c # cs) sub = (if starts_with (c # cs) sub then 1 else 0) + occurrences cs sub"

section \<open>The memory system\<close>

datatype memory_type = Lesson | Preference | Solution | ErrorMemory

text \<open>
  Numbers are JavaScript doubles in the source. Identifiers and counters are
  modelled as integers, dates as milliseconds, and the components of an
  embedding and the scores as real numbers.
\<close>

record MemoryEntry =
  entry_id :: string
  userId :: int
  projectId :: "int option"
  memoryType :: memory_type
  key :: string
  entry_value :: string
  embedding :: "real list option"
  relevanceScore :: "real option"
  createdAt :: nat
  updatedAt :: nat
  accessCount :: int
  lastAccessed :: nat

record MemoryQuery =
  q_userId :: int
  q_projectId :: "int option"
  q_memoryType :: "memory_type option"
  q_query :: "string option"
  q_limit :: "int option"

text \<open>\<open>executionTime\<close>, a difference of two clock readings, is left out.\<close>

record MemoryRetrievalResult =
  entries :: "MemoryEntry list"
  totalResults :: nat

subsection \<open>The embedding service\<close>

text \<open>\<open>simpleHash\<close>: \<open>hash & hash\<close> brings every step back to a signed 32-bit integer.\<close>

definition hash_step :: "32 word \<Rightarrow> char \<Rightarrow> 32 word" where
  "hash_step h c = push_bit 5 h - h + of_nat (of_char c)"

definition simpleHash :: "string \<Rightarrow> int" where
  "simpleHash str = sint (foldl hash_step 0 str)"

definition generateEmbedding :: "string \<Rightarrow> real list" where
  "generateEmbedding text =
     map (\<lambda>i. sin (real_of_int (simpleHash text) + real i) * 0.5 + 0.5) [0..<384]"

fun similarity_loop :: "real list \<Rightarrow> real list \<Rightarrow> real \<times> real \<times> real \<Rightarrow> real \<times> real \<times> real" where
  "similarity_loop (x # xs) (y # ys) (dotProduct, magnitude1, magnitude2) =
     similarity_loop xs ys (dotProduct + x * y, magnitude1 + x * x, magnitude2 + y * y)"
| "similarity_loop xs ys acc = acc"

definition calculateSimilarity :: "real list \<Rightarrow> real list \<Rightarrow> real" where
  "calculateSimilarity embedding1 embedding2 =
     (if length embedding1 \<noteq> length embedding2 then 0
      else case similarity_loop embedding1 embedding2 (0, 0, 0) of
        (dotProduct, m1, m2) \<Rightarrow>
          (let magnitude1 = sqrt m1; magnitude2 = sqrt m2
           in if magnitude1 = 0 \<or> magnitude2 = 0 then 0
              else dotProduct / (magnitude1 * magnitude2)))"

subsection \<open>The map of stored entries\<close>

text \<open>
  A JavaScript \<open>Map\<close> iterates in insertion order, so it is an association list;
  its keys are the addresses of the stored entry objects. \<open>set\<close> on a present key
  replaces the value in place, \<open>delete\<close> reports whether the key was present.
\<close>

type_synonym memory_map = "(string \<times> MemoryEntry) list"

definition map_get :: "memory_map \<Rightarrow> string \<Rightarrow> MemoryEntry option" where
  "map_get m k = map_of m k"

fun map_set :: "string \<Rightarrow> MemoryEntry \<Rightarrow> memory_map \<Rightarrow> memory_map" where
  "map_set k v [] = [(k, v)]"
| "map_set k v ((k', v') # m) = (if k' = k then (k, v) # m else (k', v') # map_set k v m)"

definition map_has :: "memory_map \<Rightarrow> string \<Rightarrow> bool" where
  "map_has m k = (k \<in> set (map fst m))"

definition map_delete :: "string \<Rightarrow> memory_map \<Rightarrow> bool \<times> memory_map" where
  "map_delete k m = (map_has m k, filter (\<lambda>(k', v). k' \<noteq> k) m)"

text \<open>Mutating the object at address \<open>k\<close>.\<close>

fun modify :: "string \<Rightarrow> (MemoryEntry \<Rightarrow> MemoryEntry) \<Rightarrow> memory_map \<Rightarrow> memory_map" where
  "modify k f [] = []"
| "modify k f ((k', v) # m) = (if k' = k then (k', f v) # m else (k', v) # modify k f m)"

record MemoryStorage =
  memories :: memory_map
  nextId :: nat

definition empty_storage :: MemoryStorage where
  "empty_storage = \<lparr>memories = [], nextId = 1\<rparr>"

datatype memory_error = NotFoundOrUnauthorized

subsection \<open>store\<close>

definition store ::
  "nat \<Rightarrow> MemoryStorage \<Rightarrow> int \<Rightarrow> memory_type \<Rightarrow> string \<Rightarrow> string \<Rightarrow> int option
     \<Rightarrow> MemoryEntry \<times> MemoryStorage" where
  "store now st uid ty k v pid =
     (let new_id = ''mem-'' @ digits_of (nextId st);
          entry = \<lparr>entry_id = new_id, userId = uid, projectId = pid, memoryType = ty,
                   key = k, entry_value = v, embedding = Some (generateEmbedding v),
                   relevanceScore = None, createdAt = now, updatedAt = now,
                   accessCount = 0, lastAccessed = now\<rparr>
      in (entry, \<lparr>memories = map_set new_id entry (memories st), nextId = nextId st + 1\<rparr>))"

subsection \<open>retrieve\<close>

text \<open>Truthiness of an optional number and of an optional string.\<close>

definition truthy_num :: "int option \<Rightarrow> bool" where
  "truthy_num x = (case x of None \<Rightarrow> False | Some n \<Rightarrow> n \<noteq> 0)"

definition truthy_str :: "string option \<Rightarrow> bool" where
  "truthy_str x = (case x of None \<Rightarrow> False | Some s \<Rightarrow> s \<noteq> [])"

text \<open>
  The body of the filtering loop for one entry: the entry as the body leaves it
  (the body writes \<open>relevanceScore\<close> into the stored object) and whether it was
  pushed to \<open>results\<close>.
\<close>

definition visit :: "MemoryQuery \<Rightarrow> MemoryEntry \<Rightarrow> MemoryEntry \<times> bool" where
  "visit q entry =
     (if userId entry \<noteq> q_userId q then (entry, False)
      else if truthy_num (q_projectId q) \<and> projectId entry \<noteq> q_projectId q then (entry, False)
      else if q_memoryType q \<noteq> None \<and> Some (memoryType entry) \<noteq> q_memoryType q
        then (entry, False)
      else case (q_query q, embedding entry) of
        (Some text, Some emb) \<Rightarrow>
          (if text \<noteq> [] then
             (let queryEmbedding = generateEmbedding text;
                  similarity = calculateSimilarity emb queryEmbedding
              in if similarity > 0.3
                 then (entry\<lparr>relevanceScore := Some similarity\<rparr>, True)
                 else (entry, False))
           else (entry, True))
      | _ \<Rightarrow> (entry, True))"

text \<open>The loop over the map: the map afterwards, and \<open>results\<close> as references
  (key and object) in the order pushed.\<close>

fun filter_loop :: "MemoryQuery \<Rightarrow> memory_map \<Rightarrow> memory_map \<times> (string \<times> MemoryEntry) list" where
  "filter_loop q [] = ([], [])"
| "filter_loop q ((k, entry) # m) =
     (case visit q entry of (entry', pushed) \<Rightarrow>
        case filter_loop q m of (m', results) \<Rightarrow>
          ((k, entry') # m', if pushed then (k, entry') # results else results))"

text \<open>\<open>x || 0\<close> on an optional score.\<close>

definition or_zero :: "real option \<Rightarrow> real" where
  "or_zero x = (case x of None \<Rightarrow> 0 | Some s \<Rightarrow> s)"

definition compare_entries :: "MemoryEntry \<Rightarrow> MemoryEntry \<Rightarrow> real" where
  "compare_entries a b =
     (let scoreA = or_zero (relevanceScore a);
          scoreB = or_zero (relevanceScore b)
      in if scoreB - scoreA \<noteq> 0 then scoreB - scoreA
         else real_of_int (accessCount b - accessCount a))"

text \<open>
  \<open>Array.prototype.sort\<close> is stable; with a comparator that is a consistent order
  its result is that of an insertion sort that keeps equal elements in place.
\<close>

fun insert_sorted :: "('a \<Rightarrow> 'a \<Rightarrow> real) \<Rightarrow> 'a \<Rightarrow> 'a list \<Rightarrow> 'a list" where
  "insert_sorted cmp x [] = [x]"
| "insert_sorted cmp x (y # ys) =
     (if cmp x y \<le> 0 then x # y # ys else y # insert_sorted cmp x ys)"

definition sort_with :: "('a \<Rightarrow> 'a \<Rightarrow> real) \<Rightarrow> 'a list \<Rightarrow> 'a list" where
  "sort_with cmp xs = foldr (insert_sorted cmp) xs []"

text \<open>\<open>xs.slice(0, n)\<close>: a negative end counts from the end of the array. A limit is
  an integer here; a fractional one, which \<open>slice\<close> truncates, is outside the model.\<close>

definition slice0 :: "'a list \<Rightarrow> int \<Rightarrow> 'a list" where
  "slice0 xs n = (if n < 0 then take (nat (int (length xs) + n)) xs else take (nat n) xs)"

text \<open>\<open>query.limit || 10\<close>.\<close>

definition effective_limit :: "int option \<Rightarrow> int" where
  "effective_limit l = (if truthy_num l then (case l of Some n \<Rightarrow> n | None \<Rightarrow> 10) else 10)"

definition touch :: "nat \<Rightarrow> MemoryEntry \<Rightarrow> MemoryEntry" where
  "touch now entry = entry\<lparr>accessCount := accessCount entry + 1, lastAccessed := now\<rparr>"

text \<open>The bookkeeping loop over \<open>limited\<close>.\<close>

fun touch_all :: "nat \<Rightarrow> string list \<Rightarrow> memory_map \<Rightarrow> memory_map" where
  "touch_all now [] m = m"
| "touch_all now (k # ks) m = touch_all now ks (modify k (touch now) m)"

text \<open>The objects behind a list of references, read from the map.\<close>

definition deref_all :: "memory_map \<Rightarrow> string list \<Rightarrow> MemoryEntry list" where
  "deref_all m ks = concat (map (\<lambda>k. case map_get m k of None \<Rightarrow> [] | Some e \<Rightarrow> [e]) ks)"

definition retrieve ::
  "nat \<Rightarrow> MemoryStorage \<Rightarrow> MemoryQuery \<Rightarrow> MemoryRetrievalResult \<times> MemoryStorage" where
  "retrieve now st q =
     (case filter_loop q (memories st) of (m1, pushed) \<Rightarrow>
        (let results = sort_with (\<lambda>a b. compare_entries (snd a) (snd b)) pushed;
             limited = map fst (slice0 results (effective_limit (q_limit q)));
             m2 = touch_all now limited m1
         in (\<lparr>entries = deref_all m2 limited, totalResults = length results\<rparr>,
             st\<lparr>memories := m2\<rparr>)))"

text \<open>
  The two intermediate lists of \<open>retrieve\<close> in closed form: \<open>results\<close> as the
  filtering loop leaves it, and \<open>limited\<close>.
\<close>

definition pushed_refs :: "MemoryQuery \<Rightarrow> memory_map \<Rightarrow> (string \<times> MemoryEntry) list" where
  "pushed_refs q m = map (\<lambda>(k, e). (k, fst (visit q e))) (filter (\<lambda>(k, e). snd (visit q e)) m)"

definition limited_refs :: "MemoryQuery \<Rightarrow> memory_map \<Rightarrow> (string \<times> MemoryEntry) list" where
  "limited_refs q m =
     slice0 (sort_with (\<lambda>a b. compare_entries (snd a) (snd b)) (pushed_refs q m))
       (effective_limit (q_limit q))"

subsection \<open>update and delete\<close>

text \<open>\<open>Partial<MemoryEntry>\<close>: every field may be absent.\<close>

record MemoryUpdates =
  u_id :: "string option"
  u_userId :: "int option"
  u_projectId :: "int option"
  u_memoryType :: "memory_type option"
  u_key :: "string option"
  u_value :: "string option"
  u_embedding :: "real list option"
  u_relevanceScore :: "real option"
  u_createdAt :: "nat option"
  u_updatedAt :: "nat option"
  u_accessCount :: "int option"
  u_lastAccessed :: "nat option"

definition no_updates :: MemoryUpdates where
  "no_updates = \<lparr>u_id = None, u_userId = None, u_projectId = None, u_memoryType = None,
     u_key = None, u_value = None, u_embedding = None, u_relevanceScore = None,
     u_createdAt = None, u_updatedAt = None, u_accessCount = None, u_lastAccessed = None\<rparr>"

definition pick :: "'a option \<Rightarrow> 'a \<Rightarrow> 'a" where
  "pick u old = (case u of None \<Rightarrow> old | Some v \<Rightarrow> v)"

definition pick_opt :: "'a option \<Rightarrow> 'a option \<Rightarrow> 'a option" where
  "pick_opt u old = (case u of None \<Rightarrow> old | Some v \<Rightarrow> Some v)"

text \<open>The object spread \<open>{...entry, ...updates, updatedAt: new Date()}\<close>.\<close>

definition spread :: "nat \<Rightarrow> MemoryEntry \<Rightarrow> MemoryUpdates \<Rightarrow> MemoryEntry" where
  "spread now entry updates =
     \<lparr>entry_id = pick (u_id updates) (entry_id entry),
      userId = pick (u_userId updates) (userId entry),
      projectId = pick_opt (u_projectId updates) (projectId entry),
      memoryType = pick (u_memoryType updates) (memoryType entry),
      key = pick (u_key updates) (key entry),
      entry_value = pick (u_value updates) (entry_value entry),
      embedding = pick_opt (u_embedding updates) (embedding entry),
      relevanceScore = pick_opt (u_relevanceScore updates) (relevanceScore entry),
      createdAt = pick (u_createdAt updates) (createdAt entry),
      updatedAt = now,
      accessCount = pick (u_accessCount updates) (accessCount entry),
      lastAccessed = pick (u_lastAccessed updates) (lastAccessed entry)\<rparr>"

definition update ::
  "nat \<Rightarrow> MemoryStorage \<Rightarrow> string \<Rightarrow> int \<Rightarrow> MemoryUpdates
     \<Rightarrow> memory_error + MemoryEntry \<times> MemoryStorage" where
  "update now st mid uid updates =
     (case map_get (memories st) mid of
        None \<Rightarrow> Inl NotFoundOrUnauthorized
      | Some entry \<Rightarrow>
          if userId entry \<noteq> uid then Inl NotFoundOrUnauthorized
          else
            (let updated = spread now entry updates;
                 updated' = (if truthy_str (u_value updates)
                             then updated\<lparr>embedding :=
                                    Some (generateEmbedding (or_empty (u_value updates)))\<rparr>
                             else updated)
             in Inr (updated', st\<lparr>memories := map_set mid updated' (memories st)\<rparr>)))"

definition delete ::
  "MemoryStorage \<Rightarrow> string \<Rightarrow> int \<Rightarrow> memory_error + bool \<times> MemoryStorage" where
  "delete st mid uid =
     (case map_get (memories st) mid of
        None \<Rightarrow> Inl NotFoundOrUnauthorized
      | Some entry \<Rightarrow>
          if userId entry \<noteq> uid then Inl NotFoundOrUnauthorized
          else (case map_delete mid (memories st) of
                  (existed, m') \<Rightarrow> Inr (existed, st\<lparr>memories := m'\<rparr>)))"

subsection \<open>Example inputs\<close>

text \<open>A response of an agent whose generation call raised.\<close>

definition failed_response :: "string \<Rightarrow> AgentResponse" where
  "failed_response msg = \<lparr>success = False, resp_result = None,
                           resp_error = Some msg, nextAgent = None\<rparr>"

definition tick :: "nat \<Rightarrow> nat" where
  "tick k = 1700000000000 + k"

text \<open>A store holding one entry, and one holding two entries with the same value.\<close>

definition one_entry :: MemoryStorage where
  "one_entry = snd (store 100 empty_storage 1 Lesson ''k'' ''v'' None)"

definition two_entries :: MemoryStorage where
  "two_entries = snd (store 101 one_entry 1 Lesson ''k2'' ''v'' None)"

text \<open>A store holding one entry of project 5.\<close>

definition project_entry :: MemoryStorage where
  "project_entry = snd (store 100 empty_storage 1 Lesson ''k'' ''v'' (Some 5))"

definition query_user :: "int \<Rightarrow> MemoryQuery" where
  "query_user uid = \<lparr>q_userId = uid, q_projectId = None, q_memoryType = None,
                      q_query = None, q_limit = None\<rparr>"

text \<open>The entry that \<open>one_entry\<close> holds.\<close>

definition entry1 :: MemoryEntry where
  "entry1 = \<lparr>entry_id = ''mem-1'', userId = 1, projectId = None, memoryType = Lesson,
     key = ''k'', entry_value = ''v'', embedding = Some (generateEmbedding ''v''),
     relevanceScore = None, createdAt = 100, updatedAt = 100, accessCount = 0,
     lastAccessed = 100\<rparr>"

text \<open>The second entry of \<open>two_entries\<close>, and a store shared by two subjects.\<close>

definition entry2 :: MemoryEntry where
  "entry2 = \<lparr>entry_id = ''mem-2'', userId = 1, projectId = None, memoryType = Lesson,
     key = ''k2'', entry_value = ''v'', embedding = Some (generateEmbedding ''v''),
     relevanceScore = None, createdAt = 101, updatedAt = 101, accessCount = 0,
     lastAccessed = 101\<rparr>"

definition other_user :: MemoryStorage where
  "other_user = snd (store 102 one_entry 2 Solution ''k3'' ''w'' None)"

section \<open>Facts about strings\<close>

text \<open>A separator character that does not occur in the pattern cuts every search
  into independent searches of the pieces.\<close>

lemma starts_with_append_sep:
  "c \<notin> set sub \<Longrightarrow> starts_with (a @ c # b) sub = starts_with a sub"
proof (induction a sub rule: starts_with.induct)
  case (1 s) show ?case by simp
next
  case (2 p ps) then show ?case by simp
next
  case (3 x xs p ps) then show ?case by simp
qed

lemma includes_append_sep:
  "c \<notin> set sub \<Longrightarrow> sub \<noteq> [] \<Longrightarrow>
   includes_str (a @ c # b) sub = (includes_str a sub \<or> includes_str b sub)"
proof (induction a)
  case Nil
  then obtain p ps where "sub = p # ps" by (cases sub) auto
  with Nil show ?case by auto
next
  case (Cons x xs)
  have "starts_with ((x # xs) @ c # b) sub = starts_with (x # xs) sub"
    using Cons.prems(1) by (rule starts_with_append_sep)
  with Cons show ?case by auto
qed

lemma includes_join:
  "c \<notin> set sub \<Longrightarrow> sub \<noteq> [] \<Longrightarrow>
   includes_str (join ls [c]) sub = (\<exists>l \<in> set ls. includes_str l sub)"
proof (induction ls "[c]" rule: join.induct)
  case 1 then show ?case by simp
next
  case (2 x) then show ?case by simp
next
  case (3 x y ys)
  then show ?case using includes_append_sep[of c sub x "join (y # ys) [c]"] by auto
qed

lemma occurrences_append_sep:
  "c \<notin> set sub \<Longrightarrow> sub \<noteq> [] \<Longrightarrow>
   occurrences (a @ c # b) sub = occurrences a sub + occurrences b sub"
proof (induction a)
  case Nil
  then obtain p ps where "sub = p # ps" by (cases sub) auto
  with Nil show ?case by auto
next
  case (Cons x xs)
  have "starts_with ((x # xs) @ c # b) sub = starts_with (x # xs) sub"
    using Cons.prems(1) by (rule starts_with_append_sep)
  with Cons show ?case by auto
qed

lemma occurrences_join:
  "c \<notin> set sub \<Longrightarrow> sub \<noteq> [] \<Longrightarrow>
   occurrences (join ls [c]) sub = sum_list (map (\<lambda>l. occurrences l sub) ls)"
proof (induction ls "[c]" rule: join.induct)
  case 1 then show ?case by simp
next
  case (2 x) then show ?case by simp
next
  case (3 x y ys)
  then show ?case using occurrences_append_sep[of c sub x "join (y # ys) [c]"] by auto
qed

lemma starts_with_any:
  "starts_with s ''any'' \<longleftrightarrow> (\<exists>r. s = ''any'' @ r)"
proof (cases s)
  case Nil then show ?thesis by simp
next
  case (Cons a s1)
  show ?thesis
  proof (cases s1)
    case Nil with Cons show ?thesis by auto
  next
    case (Cons b s2)
    note c2 = this
    show ?thesis
    proof (cases s2)
      case Nil with c2 \<open>s = a # s1\<close> show ?thesis by auto
    next
      case (Cons c s3)
      with c2 \<open>s = a # s1\<close> show ?thesis by auto
    qed
  qed
qed

lemma split_scan_any_length:
  "length (split_scan ''any'' cur s) = Suc (occurrences s ''any'')"
proof (induction "''any''" cur s rule: split_scan.induct)
  case (1 cur)
  then show ?case by simp
next
  case (2 cur c cs)
  show ?case
  proof (cases "starts_with (c # cs) ''any''")
    case True
    then obtain r where r: "c # cs = ''any'' @ r" using starts_with_any by blast
    have "length (split_scan ''any'' [] (drop (length ''any'') (c # cs))) =
          Suc (occurrences (drop (length ''any'') (c # cs)) ''any'')"
      using 2(1) True by simp
    then have "length (split_scan ''any'' [] r) = Suc (occurrences r ''any'')"
      using r by simp
    moreover have "occurrences (c # cs) ''any'' = Suc (occurrences r ''any'')"
      unfolding r by simp
    moreover have "split_scan ''any'' cur (c # cs) = cur # split_scan ''any'' [] r"
      using True r by (simp del: starts_with.simps)
    ultimately show ?thesis by simp
  next
    case False
    have "length (split_scan ''any'' (cur @ [c]) cs) = Suc (occurrences cs ''any'')"
      using 2(2) False by simp
    moreover have "split_scan ''any'' cur (c # cs) = split_scan ''any'' (cur @ [c]) cs"
      using False by (simp del: starts_with.simps)
    moreover have "occurrences (c # cs) ''any'' = occurrences cs ''any''"
      using False by (simp del: starts_with.simps)
    ultimately show ?thesis by simp
  qed
qed

lemma split_any_length: "length (split s ''any'') = Suc (occurrences s ''any'')"
  by (simp add: split_def split_scan_any_length)

lemma includes_iff_occurrences: "includes_str s ''any'' \<longleftrightarrow> 0 < occurrences s ''any''"
  by (induction s) auto

lemma includes_unlines:
  "NL \<notin> set sub \<Longrightarrow> sub \<noteq> [] \<Longrightarrow>
   includes_str (unlines ls) sub = (\<exists>l \<in> set ls. includes_str l sub)"
  unfolding unlines_def by (rule includes_join)

lemma occurrences_unlines:
  "NL \<notin> set sub \<Longrightarrow> sub \<noteq> [] \<Longrightarrow>
   occurrences (unlines ls) sub = sum_list (map (\<lambda>l. occurrences l sub) ls)"
  unfolding unlines_def by (rule occurrences_join)

section \<open>The verifier's checks\<close>

lemma issues_distinct:
  "issue_any \<noteq> issue_no_exports" "issue_any \<noteq> issue_no_error_handling"
  "issue_no_exports \<noteq> issue_no_error_handling"
  by (simp_all add: issue_any_def issue_no_exports_def issue_no_error_handling_def)

lemma verify_reports_issues:
  "checkCodeQuality code \<noteq> [] \<Longrightarrow>
   resp_error (verify code) =
     Some (''Code verification found '' @ digits_of (length (checkCodeQuality code))
           @ '' issues:'' @ [NL] @ join (checkCodeQuality code) [NL])"
  by (simp add: verify_def Let_def)

lemma verify_success_iff: "success (verify code) \<longleftrightarrow> checkCodeQuality code = []"
  by (simp add: verify_def Let_def)

text \<open>
  Claim C6, as the code has it: the verifier's quality check lists the
  type-looseness issue exactly when the marker \<open>any\<close> appears in the code three
  or more times, since it compares the number of pieces of \<open>code.split("any")\<close>,
  one more than the number of occurrences, with 3.
\<close>

theorem any_issue_iff:
  "issue_any \<in> set (checkCodeQuality code) \<longleftrightarrow> 3 \<le> occurrences code ''any''"
  using issues_distinct
  by (auto simp: checkCodeQuality_def split_any_length includes_iff_occurrences)

theorem any_issue_iff_witness:
  "issue_any \<in> set (checkCodeQuality ''any any any'') \<and>
   issue_any \<notin> set (checkCodeQuality ''any any'')"
  using any_issue_iff [of "''any any any''"] any_issue_iff [of "''any any''"]
  by simp

text \<open>
  Claim C6 as stated fails: in \<open>any any any\<close> the marker appears exactly 3 times,
  which is not more than 3, and the issue is reported.
\<close>

theorem any_issue_counterexample:
  "\<not> (issue_any \<in> set (checkCodeQuality ''any any any'')
        \<longleftrightarrow> 3 < occurrences ''any any any'' ''any'')"
  by (simp add: checkCodeQuality_def split_any_length issue_any_def
      issue_no_exports_def issue_no_error_handling_def)

section \<open>The pipeline\<close>

lemma pascal_todo: "toPascalCase ''build a todo list'' = ''BuildATodoList''"
  by code_simp

lemma pascal_retry: "toPascalCase ''retry uploads'' = ''RetryUploads''"
  by code_simp

lemma todo_issues:
  "checkCodeQuality (code_text ''build a todo list'') = [issue_no_error_handling]"
proof -
  have "includes_str (code_text ''build a todo list'') ''export''"
    by (simp add: code_text_def pascal_todo includes_unlines)
  moreover have "\<not> includes_str (code_text ''build a todo list'') ''error''"
    by (simp add: code_text_def pascal_todo includes_unlines)
  moreover have "\<not> includes_str (code_text ''build a todo list'') ''try''"
    by (simp add: code_text_def pascal_todo includes_unlines)
  moreover have "occurrences (code_text ''build a todo list'') ''any'' = 2"
    by (simp add: code_text_def pascal_todo occurrences_unlines)
  ultimately show ?thesis
    by (simp add: checkCodeQuality_def split_any_length)
qed

lemma retry_issues: "checkCodeQuality (code_text ''retry uploads'') = []"
proof -
  have "includes_str (code_text ''retry uploads'') ''export''"
    by (simp add: code_text_def pascal_retry includes_unlines)
  moreover have "includes_str (code_text ''retry uploads'') ''try''"
    by (simp add: code_text_def pascal_retry includes_unlines)
  moreover have "occurrences (code_text ''retry uploads'') ''any'' = 2"
    by (simp add: code_text_def pascal_retry occurrences_unlines)
  ultimately show ?thesis
    by (simp add: checkCodeQuality_def split_any_length)
qed

lemmas run_defs = orchestrate_def orchestrate_with_def builtin_agents_def analyze_def
  generate_def verify_def execute_def finish_task_def or_empty_def failed_response_def Let_def

text \<open>
  Claim C1, at its input: with the built-in agents the run for the prompt
  \<open>build a todo list\<close> and project 42 ends after three records. The generated code
  contains neither \<open>error\<close> nor \<open>try\<close>, so the verifier reports missing error
  handling, its record is marked failed, and the executor is not run.
\<close>

theorem orchestrate_todo_list_stops_at_verifier:
  "length (orchestrate clk ''build a todo list'' 42) = 3 \<and>
   map agentType (orchestrate clk ''build a todo list'' 42) = [Planner, Coder, Verifier] \<and>
   status (last (orchestrate clk ''build a todo list'' 42)) = Failed \<and>
   error (last (orchestrate clk ''build a todo list'' 42)) =
     Some (''Code verification found 1 issues:'' @ [NL] @ ''No error handling detected'')"
proof -
  have "digits_of 1 = ''1''" by code_simp
  then show ?thesis
    by (simp add: run_defs todo_issues issue_no_error_handling_def)
qed

text \<open>
  Claim C9: for every prompt and project id, and whatever the four agents answer,
  the records come in the order planner, coder, verifier, executor. A failing
  planner gives one record, a failing coder two, a failing verifier three with
  no executor record, and when the first three stages succeed the executor is
  run and the trace has four records. The built-in pipeline \<open>orchestrate\<close> is the
  instance at the built-in agents.
\<close>

theorem orchestrate_trace_order:
  "(let planResult = planner ag p;
        codeResult = coder ag p (resp_result planResult);
        verifyResult = verifier ag (or_empty (resp_result codeResult));
        trace = map agentType (orchestrate_with ag clk p pid)
    in (\<not> success planResult \<longrightarrow> trace = [Planner]) \<and>
       (success planResult \<and> \<not> success codeResult \<longrightarrow> trace = [Planner, Coder]) \<and>
       (success planResult \<and> success codeResult \<and> \<not> success verifyResult
          \<longrightarrow> trace = [Planner, Coder, Verifier]) \<and>
       (success planResult \<and> success codeResult \<and> success verifyResult
          \<longrightarrow> trace = [Planner, Coder, Verifier, Executor]))
   \<and> orchestrate clk p pid = orchestrate_with builtin_agents clk p pid"
  by (simp add: orchestrate_def orchestrate_with_def finish_task_def Let_def)

theorem orchestrate_trace_order_witness:
  "map agentType (orchestrate_with
      (builtin_agents\<lparr>planner := \<lambda>p. failed_response ''Planner error''\<rparr>)
      tick ''build a todo list'' 42) = [Planner] \<and>
   map agentType (orchestrate_with
      (builtin_agents\<lparr>coder := \<lambda>p plan. failed_response ''Coder error''\<rparr>)
      tick ''build a todo list'' 42) = [Planner, Coder] \<and>
   map agentType (orchestrate tick ''build a todo list'' 42) = [Planner, Coder, Verifier] \<and>
   map agentType (orchestrate tick ''retry uploads'' 7) = [Planner, Coder, Verifier, Executor]"
  using
    orchestrate_trace_order [of "builtin_agents\<lparr>planner := \<lambda>p. failed_response ''Planner error''\<rparr>"
      "''build a todo list''" tick 42]
    orchestrate_trace_order [of "builtin_agents\<lparr>coder := \<lambda>p plan. failed_response ''Coder error''\<rparr>"
      "''build a todo list''" tick 42]
    orchestrate_trace_order [of builtin_agents "''build a todo list''" tick 42]
    orchestrate_trace_order [of builtin_agents "''retry uploads''" tick 7]
  by (simp add: builtin_agents_def analyze_def generate_def failed_response_def or_empty_def
      verify_success_iff todo_issues retry_issues issue_no_error_handling_def Let_def)

section \<open>The embedding service\<close>

text \<open>The similarity of a vector of non-zero length with itself is 1.\<close>

lemma similarity_loop_self:
  "similarity_loop v v (a, b, c) =
     (a + sum_list (map (\<lambda>x. x * x) v), b + sum_list (map (\<lambda>x. x * x) v),
      c + sum_list (map (\<lambda>x. x * x) v))"
  by (induction v arbitrary: a b c) (simp_all add: add.assoc)

lemma similarity_self:
  assumes "sum_list (map (\<lambda>x. x * x) v) \<noteq> 0"
  shows "calculateSimilarity v v = 1"
proof -
  let ?S = "sum_list (map (\<lambda>x. x * x) v)"
  have "0 \<le> ?S" by (rule sum_list_nonneg) auto
  then have "sqrt ?S * sqrt ?S = ?S" by simp
  moreover have "sqrt ?S \<noteq> 0" using assms by simp
  ultimately show ?thesis
    using assms by (simp add: calculateSimilarity_def similarity_loop_self Let_def)
qed

lemma sin_consecutive:
  assumes s0: "sin x = - (1::real)" and s1: "sin (x + 1) = - (1::real)"
  shows False
proof -
  have "(sin x)\<^sup>2 + (cos x)\<^sup>2 = 1" by (rule sin_cos_squared_add)
  with s0 have c0: "cos x = 0" by simp
  have "sin (x + 1) = sin x * cos 1 + cos x * sin 1" by (rule sin_add)
  with s0 s1 c0 have c1: "cos (1::real) = 1" by simp
  have "(sin (1::real))\<^sup>2 + (cos (1::real))\<^sup>2 = 1" by (rule sin_cos_squared_add)
  with c1 have "sin (1::real) = 0" by simp
  moreover have "0 < sin (1::real)"
    using pi_ge_two by (intro sin_gt_zero) auto
  ultimately show False by simp
qed

lemma embedding_norm: "sum_list (map (\<lambda>x. x * x) (generateEmbedding t)) \<noteq> 0"
proof
  let ?v = "generateEmbedding t"
  let ?h = "real_of_int (simpleHash t)"
  let ?f = "\<lambda>i. sin (?h + real i) * 0.5 + 0.5"
  assume z: "sum_list (map (\<lambda>x. x * x) ?v) = 0"
  have "\<forall>y \<in> set (map (\<lambda>x. x * x) ?v). y = 0"
    using z by (subst (asm) sum_list_nonneg_eq_0_iff) auto
  then have all0: "\<And>x. x \<in> set ?v \<Longrightarrow> x = 0" by auto
  have sv: "set ?v = ?f ` {0..<384}"
    unfolding generateEmbedding_def by simp
  have "?f 0 \<in> set ?v" unfolding sv by (rule imageI) simp
  then have "?f 0 = 0" by (rule all0)
  then have s0: "sin ?h = -1" by simp
  have "?f 1 \<in> set ?v" unfolding sv by (rule imageI) simp
  then have "?f 1 = 0" by (rule all0)
  then have s1: "sin (?h + 1) = -1" by simp
  show False using s0 s1 by (rule sin_consecutive)
qed

lemma similarity_same_text:
  "calculateSimilarity (generateEmbedding t) (generateEmbedding t) = 1"
  by (rule similarity_self) (rule embedding_norm)

text \<open>
  Two different hashes can give the same embedding only if they differ by a
  multiple of \<open>2 * pi\<close>. The following bounds on \<open>pi\<close>, from the Maclaurin series
  of the sine, separate the hash of \<open>v\<close> from that of the empty string.
\<close>

lemma sin_sum12: "(\<Sum>m<12. sin_coeff m * x ^ m) =
   x - x^3/6 + x^5/120 - x^7/5040 + x^9/362880 - x^11/39916800" for x :: real
  by (simp add: sin_coeff_Suc cos_coeff_Suc eval_nat_numeral)

lemma sin_near: "\<bar>sin x - (x - x^3/6 + x^5/120 - x^7/5040 + x^9/362880 - x^11/39916800)\<bar>
                  \<le> \<bar>x\<bar> ^ 12 / 479001600" for x :: real
proof -
  have e: "inverse (fact 12) * y = y / 479001600" for y :: real
    by (simp add: fact_numeral)
  have "\<bar>sin x - (\<Sum>m<12. sin_coeff m * x ^ m)\<bar> \<le> inverse (fact 12) * \<bar>x\<bar> ^ 12"
    by (rule Maclaurin_sin_bound)
  then show ?thesis unfolding sin_sum12 e .
qed

lemma pi_lower: "28/9 < pi"
proof (rule ccontr)
  let ?a = "28/9 :: real"
  assume "\<not> ?a < pi"
  then have "pi \<le> ?a" by simp
  moreover have "?a < 2 * pi" using pi_ge_two by simp
  ultimately have le: "sin ?a \<le> 0" by (rule sin_le_zero)
  have "0 < ?a - ?a^3/6 + ?a^5/120 - ?a^7/5040 + ?a^9/362880 - ?a^11/39916800
            - \<bar>?a\<bar>^12/479001600"
    by (simp add: power_divide)
  with sin_near [of ?a] le show False by linarith
qed

lemma pi_upper: "pi < 19/6"
proof (rule ccontr)
  let ?b = "19/6 :: real"
  assume "\<not> pi < ?b"
  then have "?b \<le> pi" by simp
  then have ge: "0 \<le> sin ?b" by (intro sin_ge_zero) simp_all
  have "?b - ?b^3/6 + ?b^5/120 - ?b^7/5040 + ?b^9/362880 - ?b^11/39916800
            + \<bar>?b\<bar>^12/479001600 < 0"
    by (simp add: power_divide)
  with sin_near [of ?b] ge show False by linarith
qed

lemma sin_118: "sin (118::real) \<noteq> 0"
proof
  assume "sin (118::real) = 0"
  then obtain k :: int where k: "(118::real) = of_int k * pi"
    using sin_zero_iff_int2 by blast
  have "k \<le> 37 \<or> 38 \<le> k" by linarith
  then show False
  proof
    assume "k \<le> 37"
    then have "of_int k * pi \<le> 37 * pi" by (simp add: mult_right_mono)
    with k pi_upper show False by linarith
  next
    assume "38 \<le> k"
    then have "38 * pi \<le> of_int k * pi" by (simp add: mult_right_mono)
    with k pi_lower show False by linarith
  qed
qed

lemma hash_v: "simpleHash ''v'' = 118"
  by (simp add: simpleHash_def hash_step_def)

lemma hash_empty: "simpleHash [] = 0"
  by (simp add: simpleHash_def)

lemma embedding_v_differs: "generateEmbedding ''v'' \<noteq> generateEmbedding []"
proof
  assume "generateEmbedding ''v'' = generateEmbedding []"
  then have "\<forall>i \<in> set [0..<384]. sin (real_of_int (simpleHash ''v'') + real i) * 0.5 + 0.5
                = sin (real_of_int (simpleHash []) + real i) * 0.5 + 0.5"
    unfolding generateEmbedding_def by (simp only: map_eq_conv)
  then have "sin (real_of_int (simpleHash ''v'') + real 0) * 0.5 + 0.5
                = sin (real_of_int (simpleHash []) + real 0) * 0.5 + 0.5"
    by (rule bspec) simp
  then have "sin (118::real) = 0" by (simp add: hash_v hash_empty)
  with sin_118 show False by simp
qed

section \<open>The stages of retrieve\<close>

subsection \<open>Sorting and slicing\<close>

lemma set_insert_sorted: "set (insert_sorted cmp x xs) = insert x (set xs)"
  by (induction xs) auto

lemma length_insert_sorted: "length (insert_sorted cmp x xs) = Suc (length xs)"
  by (induction xs) auto

lemma distinct_insert_sorted:
  "distinct (map f (insert_sorted cmp x xs)) \<longleftrightarrow> f x \<notin> f ` set xs \<and> distinct (map f xs)"
  by (induction xs) (auto simp: set_insert_sorted)

lemma set_sort_with: "set (sort_with cmp xs) = set xs"
  unfolding sort_with_def by (induction xs) (auto simp: set_insert_sorted)

lemma length_sort_with: "length (sort_with cmp xs) = length xs"
  unfolding sort_with_def by (induction xs) (auto simp: length_insert_sorted)

lemma distinct_sort_with:
  "distinct (map f (sort_with cmp xs)) \<longleftrightarrow> distinct (map f xs)"
proof (induction xs)
  case Nil
  show ?case by (simp add: sort_with_def)
next
  case (Cons x xs)
  have "sort_with cmp (x # xs) = insert_sorted cmp x (sort_with cmp xs)"
    by (simp add: sort_with_def)
  then show ?case using Cons by (simp add: distinct_insert_sorted set_sort_with)
qed

lemma slice0_is_take: "\<exists>j. slice0 xs n = take j xs"
  unfolding slice0_def by auto

lemma set_slice0: "set (slice0 xs n) \<subseteq> set xs"
  using slice0_is_take [of xs n] by (auto dest: in_set_takeD)

lemma distinct_slice0: "distinct (map f xs) \<Longrightarrow> distinct (map f (slice0 xs n))"
proof -
  assume d: "distinct (map f xs)"
  obtain j where "slice0 xs n = take j xs" using slice0_is_take by blast
  then show ?thesis using d by (simp add: take_map [symmetric] distinct_take del: take_map)
qed

lemma length_slice0: "0 \<le> n \<Longrightarrow> length (slice0 xs n) = min (nat n) (length xs)"
  unfolding slice0_def by auto

lemma length_slice0_le: "length (slice0 xs n) \<le> length xs"
  unfolding slice0_def by auto

subsection \<open>The filtering loop\<close>

lemma filter_loop_eq:
  "filter_loop q m = (map (\<lambda>(k, e). (k, fst (visit q e))) m, pushed_refs q m)"
  unfolding pushed_refs_def
  by (induction m) (auto split: prod.splits)

lemma visit_fields:
  "entry_id (fst (visit q e)) = entry_id e"
  "userId (fst (visit q e)) = userId e"
  "projectId (fst (visit q e)) = projectId e"
  "memoryType (fst (visit q e)) = memoryType e"
  "key (fst (visit q e)) = key e"
  "entry_value (fst (visit q e)) = entry_value e"
  "embedding (fst (visit q e)) = embedding e"
  "createdAt (fst (visit q e)) = createdAt e"
  "updatedAt (fst (visit q e)) = updatedAt e"
  "accessCount (fst (visit q e)) = accessCount e"
  "lastAccessed (fst (visit q e)) = lastAccessed e"
  by (simp_all add: visit_def Let_def split: option.splits)

lemma visit_no_text: "\<not> truthy_str (q_query q) \<Longrightarrow> fst (visit q e) = e"
  by (auto simp: visit_def truthy_str_def Let_def split: option.splits)

lemma visit_pushed_user: "snd (visit q e) \<Longrightarrow> userId e = q_userId q"
  by (auto simp: visit_def Let_def split: option.splits if_splits)

lemma visit_pushed_project:
  "snd (visit q e) \<Longrightarrow> truthy_num (q_projectId q) \<Longrightarrow> projectId e = q_projectId q"
  by (auto simp: visit_def Let_def split: option.splits if_splits)

lemma visit_pushed_type:
  "snd (visit q e) \<Longrightarrow> q_memoryType q = Some ty \<Longrightarrow> memoryType e = ty"
  by (auto simp: visit_def Let_def split: option.splits if_splits)

lemma keys_visited: "map fst (map (\<lambda>(k, e). (k, g k e)) m) = map fst m"
  by (induction m) auto

lemma pushed_subset:
  "set (pushed_refs q m) \<subseteq> set (map (\<lambda>(k, e). (k, fst (visit q e))) m)"
  unfolding pushed_refs_def by auto

lemma distinct_pushed: "distinct (map fst m) \<Longrightarrow> distinct (map fst (pushed_refs q m))"
proof -
  assume d: "distinct (map fst m)"
  have "map fst (pushed_refs q m) = map fst (filter (\<lambda>(k, e). snd (visit q e)) m)"
    unfolding pushed_refs_def by (induction m) auto
  then show ?thesis using d by (simp add: distinct_map_filter)
qed

lemma limited_subset: "set (limited_refs q m) \<subseteq> set (pushed_refs q m)"
  unfolding limited_refs_def using set_slice0 set_sort_with by fastforce

lemma distinct_limited: "distinct (map fst m) \<Longrightarrow> distinct (map fst (limited_refs q m))"
  unfolding limited_refs_def
  by (simp add: distinct_slice0 distinct_sort_with distinct_pushed)

subsection \<open>The bookkeeping loop\<close>

lemma modify_eq:
  "distinct (map fst m) \<Longrightarrow>
   modify k f m = map (\<lambda>(k', e). (k', if k' = k then f e else e)) m"
proof (induction m)
  case Nil show ?case by simp
next
  case (Cons a m)
  obtain k' e where a: "a = (k', e)" by (cases a)
  have notin: "k' = k \<Longrightarrow> map (\<lambda>(k', e). (k', if k' = k then f e else e)) m = m"
    using Cons.prems a by (intro map_idI) force
  show ?case using Cons a notin by auto
qed

lemma touch_all_eq:
  "distinct (map fst m) \<Longrightarrow> distinct ks \<Longrightarrow>
   touch_all now ks m = map (\<lambda>(k, e). (k, if k \<in> set ks then touch now e else e)) m"
proof (induction ks arbitrary: m)
  case Nil
  show ?case by simp
next
  case (Cons k ks)
  let ?m' = "map (\<lambda>(k', e). (k', if k' = k then touch now e else e)) m"
  have m': "modify k (touch now) m = ?m'" using Cons.prems(1) by (rule modify_eq)
  have d: "distinct (map fst ?m')" using Cons.prems(1) by (simp add: comp_def case_prod_beta)
  have "touch_all now (k # ks) m = touch_all now ks ?m'" by (simp add: m')
  also have "\<dots> = map (\<lambda>(k, e). (k, if k \<in> set ks then touch now e else e)) ?m'"
    using Cons.IH [OF d] Cons.prems(2) by simp
  also have "\<dots> = map (\<lambda>(k', e). (k', if k' \<in> set (k # ks) then touch now e else e)) m"
    using Cons.prems(2) by (auto simp: case_prod_beta)
  finally show ?case .
qed

lemma deref_all_map:
  "(\<And>k e. (k, e) \<in> set ps \<Longrightarrow> map_get M k = Some (h k e)) \<Longrightarrow>
   deref_all M (map fst ps) = map (\<lambda>(k, e). h k e) ps"
proof (induction ps)
  case Nil
  show ?case by (simp add: deref_all_def)
next
  case (Cons p ps)
  obtain k e where p: "p = (k, e)" by (cases p)
  have "map_get M k = Some (h k e)" using Cons.prems [of k e] p by simp
  moreover have "deref_all M (map fst ps) = map (\<lambda>(k, e). h k e) ps"
    using Cons.IH Cons.prems by simp
  ultimately show ?case using p by (simp add: deref_all_def)
qed

lemma deref_all_eq:
  assumes "distinct (map fst m)" and "set ps \<subseteq> set m"
  shows "deref_all (map (\<lambda>(k, e). (k, g k e)) m) (map fst ps) = map (\<lambda>(k, e). g k e) ps"
proof (rule deref_all_map)
  fix k e assume "(k, e) \<in> set ps"
  then have "(k, e) \<in> set m" using assms(2) by auto
  then have "(k, g k e) \<in> set (map (\<lambda>(k, e). (k, g k e)) m)" by force
  moreover have "distinct (map fst (map (\<lambda>(k, e). (k, g k e)) m))"
    using assms(1) by (simp add: comp_def case_prod_beta)
  ultimately show "map_get (map (\<lambda>(k, e). (k, g k e)) m) k = Some (g k e)"
    unfolding map_get_def by (simp add: map_of_is_SomeI)
qed

lemma retrieve_eq:
  assumes "distinct (map fst (memories st))"
  shows "retrieve now st q =
    (\<lparr>entries = map (\<lambda>(k, e). touch now e) (limited_refs q (memories st)),
      totalResults = length (pushed_refs q (memories st))\<rparr>,
     st\<lparr>memories := map (\<lambda>(k, e). (k, if k \<in> fst ` set (limited_refs q (memories st))
                                        then touch now (fst (visit q e)) else fst (visit q e)))
                      (memories st)\<rparr>)"
proof -
  let ?m = "memories st"
  let ?m1 = "map (\<lambda>(k, e). (k, fst (visit q e))) ?m"
  let ?lp = "limited_refs q ?m"
  have d1: "distinct (map fst ?m1)" using assms by (simp add: comp_def case_prod_beta)
  have dl: "distinct (map fst ?lp)" using assms by (rule distinct_limited)
  have t: "touch_all now (map fst ?lp) ?m1 =
           map (\<lambda>(k, e). (k, if k \<in> set (map fst ?lp) then touch now e else e)) ?m1"
    using d1 dl by (rule touch_all_eq)
  have sub: "set ?lp \<subseteq> set ?m1"
    using limited_subset pushed_subset by blast
  have "deref_all (map (\<lambda>(k, e). (k, if k \<in> set (map fst ?lp) then touch now e else e)) ?m1)
          (map fst ?lp) = map (\<lambda>(k, e). if k \<in> set (map fst ?lp) then touch now e else e) ?lp"
    using d1 sub by (rule deref_all_eq)
  also have "\<dots> = map (\<lambda>(k, e). touch now e) ?lp"
    by (rule map_cong) force+
  finally have de: "deref_all (touch_all now (map fst ?lp) ?m1) (map fst ?lp)
                    = map (\<lambda>(k, e). touch now e) ?lp"
    using t by simp
  have m2: "touch_all now (map fst ?lp) ?m1 =
            map (\<lambda>(k, e). (k, if k \<in> fst ` set ?lp
                                then touch now (fst (visit q e)) else fst (visit q e))) ?m"
    unfolding t by (simp add: case_prod_beta comp_def)
  have de': "deref_all (map (\<lambda>(k, e). (k, if k \<in> fst ` set ?lp
                                then touch now (fst (visit q e)) else fst (visit q e))) ?m)
               (map fst ?lp) = map (\<lambda>(k, e). touch now e) ?lp"
    using de m2 by simp
  show ?thesis
    unfolding retrieve_def filter_loop_eq
    by (simp add: Let_def length_sort_with de' m2 limited_refs_def [symmetric])
qed

lemma map_of_keyed:
  "map_of (map (\<lambda>(k, e). (k, g k e)) m) k = map_option (g k) (map_of m k)"
  by (induction m) auto

text \<open>
  What a retrieval does to the stored entry at any key: every entry the loop
  visits is left as \<open>visit\<close> leaves it, and those in \<open>limited\<close> are touched once.
\<close>

lemma retrieve_bookkeeping:
  assumes "distinct (map fst (memories st))"
  shows "map_get (memories (snd (retrieve now st q))) k =
     map_option (\<lambda>e. if k \<in> fst ` set (limited_refs q (memories st))
                       then touch now (fst (visit q e)) else fst (visit q e))
       (map_get (memories st) k)"
  using assms by (simp add: retrieve_eq map_get_def map_of_keyed)

section \<open>The example stores\<close>

lemma digits_small:
  "digits_of (Suc 0) = ''1''" "digits_of 1 = ''1''" "digits_of 2 = ''2''"
  by code_simp+

lemma one_entry_eq: "one_entry = \<lparr>memories = [(''mem-1'', entry1)], nextId = 2\<rparr>"
  by (simp add: one_entry_def store_def empty_storage_def digits_small entry1_def Let_def)

lemma two_entries_eq:
  "two_entries = \<lparr>memories = [(''mem-1'', entry1), (''mem-2'', entry2)], nextId = 3\<rparr>"
  by (simp add: two_entries_def one_entry_eq store_def digits_small entry2_def Let_def)

lemma other_user_eq:
  "other_user = \<lparr>memories = [(''mem-1'', entry1),
      (''mem-2'', \<lparr>entry_id = ''mem-2'', userId = 2, projectId = None, memoryType = Solution,
         key = ''k3'', entry_value = ''w'', embedding = Some (generateEmbedding ''w''),
         relevanceScore = None, createdAt = 102, updatedAt = 102, accessCount = 0,
         lastAccessed = 102\<rparr>)], nextId = 3\<rparr>"
  by (simp add: other_user_def one_entry_eq store_def digits_small Let_def)

lemma project_entry_eq:
  "project_entry = \<lparr>memories = [(''mem-1'', entry1\<lparr>projectId := Some 5\<rparr>)], nextId = 2\<rparr>"
  by (simp add: project_entry_def store_def empty_storage_def digits_small entry1_def Let_def)

lemmas retrieve_defs = retrieve_def visit_def sort_with_def compare_entries_def or_zero_def
  slice0_def effective_limit_def truthy_num_def truthy_str_def touch_def deref_all_def
  map_get_def query_user_def Let_def

section \<open>Retrieval\<close>

lemma pushed_refs_elem:
  "(k, e') \<in> set (pushed_refs q m) \<Longrightarrow>
   \<exists>e0. (k, e0) \<in> set m \<and> snd (visit q e0) \<and> e' = fst (visit q e0)"
  unfolding pushed_refs_def by auto

lemma returned_entry:
  assumes "distinct (map fst (memories st))"
    and "e \<in> set (entries (fst (retrieve now st q)))"
  shows "\<exists>k e0. (k, e0) \<in> set (memories st) \<and> snd (visit q e0)
                  \<and> e = touch now (fst (visit q e0))"
proof -
  from assms obtain k e' where ke: "(k, e') \<in> set (limited_refs q (memories st))"
    and e: "e = touch now e'"
    by (auto simp: retrieve_eq)
  from ke have "(k, e') \<in> set (pushed_refs q (memories st))"
    using limited_subset by blast
  then show ?thesis using e pushed_refs_elem by blast
qed

text \<open>
  Claim C3: for every store and every subject identifier, every entry that
  \<open>retrieve\<close> returns for a query of that subject belongs to that subject. The
  store is a \<open>Map\<close>, so its keys are distinct.
\<close>

theorem retrieve_scoped_to_subject:
  assumes "distinct (map fst (memories st))"
    and "e \<in> set (entries (fst (retrieve now st q)))"
  shows "userId e = q_userId q"
proof -
  from returned_entry [OF assms] obtain k e0 where
    "snd (visit q e0)" and "e = touch now (fst (visit q e0))" by blast
  then show ?thesis
    using visit_pushed_user [of q e0] by (simp add: touch_def visit_fields)
qed

theorem retrieve_scoped_to_subject_witness:
  "distinct (map fst (memories other_user)) \<and>
   entries (fst (retrieve 200 other_user (query_user 1))) = [touch 200 entry1] \<and>
   userId (touch 200 entry1) = 1"
proof -
  have d: "distinct (map fst (memories other_user))" by (simp add: other_user_eq)
  have r: "entries (fst (retrieve 200 other_user (query_user 1))) = [touch 200 entry1]"
    by (simp add: other_user_eq retrieve_defs entry1_def)
  have "touch 200 entry1 \<in> set (entries (fst (retrieve 200 other_user (query_user 1))))"
    by (simp add: r)
  with d have "userId (touch 200 entry1) = q_userId (query_user 1)"
    by (rule retrieve_scoped_to_subject)
  with d r show ?thesis by (simp add: query_user_def)
qed

lemma retrieve_project_filter:
  assumes "distinct (map fst (memories st))"
    and "e \<in> set (entries (fst (retrieve now st q)))"
    and "q_projectId q = Some p" and "p \<noteq> 0"
  shows "projectId e = Some p"
proof -
  from returned_entry [OF assms(1,2)] obtain k e0 where
    "snd (visit q e0)" and "e = touch now (fst (visit q e0))" by blast
  then show ?thesis
    using visit_pushed_project [of q e0] assms(3,4)
    by (simp add: touch_def visit_fields truthy_num_def)
qed

text \<open>
  Claim C4, at a failing input: the store holds one entry of project 5, and the
  query gives project 0. The guard \<open>query.projectId && ...\<close> reads the 0 as no
  project, and the entry of project 5 is returned.
\<close>

theorem retrieve_project_zero_not_filtered:
  "map projectId (entries (fst (retrieve 200 project_entry
      ((query_user 1)\<lparr>q_projectId := Some 0\<rparr>)))) = [Some 5]"
  by (simp add: project_entry_eq retrieve_defs entry1_def)

text \<open>
  Where the limit is read as given: for a positive limit at most that many
  entries are returned, without a limit at most 10, and \<open>totalResults\<close> is the
  number of candidates the filtering loop pushed.
\<close>

lemma retrieve_within_limit:
  assumes "distinct (map fst (memories st))"
  shows "(\<forall>l. q_limit q = Some l \<and> 0 < l \<longrightarrow>
            int (length (entries (fst (retrieve now st q)))) \<le> l) \<and>
         (q_limit q = None \<longrightarrow> length (entries (fst (retrieve now st q))) \<le> 10) \<and>
         totalResults (fst (retrieve now st q)) = length (snd (filter_loop q (memories st)))"
  using assms
  by (auto simp: retrieve_eq filter_loop_eq limited_refs_def length_slice0 length_sort_with
      effective_limit_def truthy_num_def)

text \<open>
  Claim C7, at a failing input: two entries are stored and retrieved with the
  limit 0. \<open>query.limit || 10\<close> reads the 0 as no limit and takes 10, so both
  entries are returned, where at most 0 were asked for; \<open>totalResults\<close> is 2, the
  number of candidates, as claimed.
\<close>

theorem retrieve_limit_zero_ignored:
  "length (entries (fst (retrieve 200 two_entries ((query_user 1)\<lparr>q_limit := Some 0\<rparr>)))) = 2 \<and>
   map entry_id (entries (fst (retrieve 200 two_entries ((query_user 1)\<lparr>q_limit := Some 0\<rparr>))))
     = [''mem-1'', ''mem-2''] \<and>
   totalResults (fst (retrieve 200 two_entries ((query_user 1)\<lparr>q_limit := Some 0\<rparr>))) = 2"
  by (simp add: two_entries_eq retrieve_defs entry1_def entry2_def)

lemma visit_same_text:
  "userId e = q_userId q \<Longrightarrow> q_projectId q = None \<Longrightarrow> q_memoryType q = None \<Longrightarrow>
   q_query q = Some t \<Longrightarrow> t \<noteq> [] \<Longrightarrow> embedding e = Some (generateEmbedding t) \<Longrightarrow>
   visit q e = (e\<lparr>relevanceScore := Some 1\<rparr>, True)"
  by (simp add: visit_def truthy_num_def similarity_same_text Let_def)

text \<open>
  Claim C2, at a failing input: one entry with value \<open>v\<close> is stored, a first
  retrieval with the query text \<open>v\<close> writes the similarity 1 into the stored
  object, and a second retrieval without query text returns the entry with
  that score still attached.
\<close>

theorem stale_relevance_score:
  "(let st2 = snd (retrieve 200 one_entry ((query_user 1)\<lparr>q_query := Some ''v''\<rparr>));
        r = fst (retrieve 300 st2 (query_user 1))
    in map relevanceScore (entries r) = [Some 1] \<and> map entry_id (entries r) = [''mem-1''])"
  by (simp add: one_entry_eq retrieve_defs entry1_def similarity_same_text)

text \<open>
  Claim C5, at a failing input: two entries with value \<open>v\<close> are stored and
  retrieved with the query text \<open>v\<close> and limit 1. The first entry is returned; the
  second is not returned and not counted as accessed, and its \<open>relevanceScore\<close>
  has changed from absent to 1.
\<close>

theorem unreturned_entry_rescored:
  "(let q = (query_user 1)\<lparr>q_query := Some ''v'', q_limit := Some 1\<rparr>;
        r = fst (retrieve 200 two_entries q);
        st' = snd (retrieve 200 two_entries q)
    in map entry_id (entries r) = [''mem-1''] \<and>
       map_option relevanceScore (map_get (memories two_entries) ''mem-2'') = Some None \<and>
       map_option relevanceScore (map_get (memories st') ''mem-2'') = Some (Some 1) \<and>
       map_option accessCount (map_get (memories st') ''mem-2'') = Some 0)"
  by (simp add: two_entries_eq retrieve_defs entry1_def entry2_def similarity_same_text)

section \<open>Update and delete\<close>

text \<open>With a non-empty new value the embedding is generated from it.\<close>

lemma update_regenerates:
  assumes "update now st mid uid updates = Inr (e, st')"
    and "u_value updates = Some v" and "v \<noteq> []"
  shows "embedding e = Some (generateEmbedding v) \<and> entry_value e = v"
  using assms
  by (auto simp: update_def spread_def pick_def truthy_str_def or_empty_def Let_def
      split: option.splits if_splits)

text \<open>
  Claim C8, at a failing input: the entry with value \<open>v\<close> is updated with the empty
  string as its new value. The value is replaced, and since \<open>if (updates.value)\<close>
  reads the empty string as no value, the embedding stays the one generated from
  \<open>v\<close>, which differs from the one generated from the empty string.
\<close>

theorem update_empty_value_keeps_embedding:
  "(case update 200 one_entry ''mem-1'' 1 (no_updates\<lparr>u_value := Some []\<rparr>) of
      Inl err \<Rightarrow> False
    | Inr (e, st') \<Rightarrow>
        entry_value e = [] \<and> embedding e = Some (generateEmbedding ''v'') \<and>
        embedding e \<noteq> Some (generateEmbedding []) \<and>
        map_get (memories st') ''mem-1'' = Some e)"
  by (simp add: one_entry_eq update_def spread_def no_updates_def pick_def pick_opt_def
      truthy_str_def map_get_def entry1_def embedding_v_differs Let_def)

lemma map_get_has: "map_get m k = Some e \<Longrightarrow> map_has m k"
  unfolding map_get_def map_has_def
  by (induction m) (auto split: if_splits)

text \<open>
  Claim C10: whenever \<open>delete\<close> returns a value, the value is true; when no entry
  with the given id belongs to the given subject, \<open>delete\<close> raises the
  not-found-or-unauthorized error.
\<close>

theorem delete_never_false:
  "(\<forall>b st'. delete st mid uid = Inr (b, st') \<longrightarrow> b) \<and>
   ((\<nexists>e. map_get (memories st) mid = Some e \<and> userId e = uid)
      \<longrightarrow> delete st mid uid = Inl NotFoundOrUnauthorized)"
  by (auto simp: delete_def map_delete_def dest: map_get_has split: option.splits if_splits)

theorem delete_never_false_witness:
  "delete one_entry ''mem-1'' 1 = Inr (True, \<lparr>memories = [], nextId = 2\<rparr>) \<and>
   delete one_entry ''mem-1'' 2 = Inl NotFoundOrUnauthorized \<and>
   delete one_entry ''mem-9'' 1 = Inl NotFoundOrUnauthorized"
  using delete_never_false [of one_entry "''mem-1''" 1]
    delete_never_false [of one_entry "''mem-1''" 2]
    delete_never_false [of one_entry "''mem-9''" 1]
  by (simp add: one_entry_eq delete_def map_get_def map_delete_def map_has_def entry1_def)

end
